theory Spec2Isabelle
  imports Main
begin

section \<open>The underlying boost::multi\_index\_container\<close>

text \<open>
  \<^verbatim>\<open>Container\<close> (container.hpp) keeps its elements in a
  \<^verbatim>\<open>boost::multi_index_container\<close> whose index 0 is a \<^verbatim>\<open>sequenced<>\<close> index
  (the recency list) and whose other indices are the caller's \<^verbatim>\<open>IndexSpecifierList\<close>.
  The library keeps one node per element and every index is a view of the same nodes.
  The model keeps the nodes once, in the order of index 0 (front first); each node carries
  its identity (what an iterator denotes), numbered in order of insertion. An index of
  the specifier list is its kind (\<^verbatim>\<open>ordered_\<close> or \<^verbatim>\<open>hashed_\<close>), whether it is unique, and
  its key extractor. All key types are embedded in one type \<open>'k\<close>.
\<close>

type_synonym 'v node = "nat \<times> 'v"

text \<open>
  The place an index gives a node among the nodes of the same key. An ordered index lists
  the elements of one key in the order of their insertion (a new element is linked at the
  upper bound of its key). For a hashed index the library keeps the elements of one key
  together and leaves their order open; a hashed index therefore carries the place it
  gives a node (any function of the node's identity: the place of a node is settled when
  the node is inserted and does not change while the node is stored). Nodes of one place
  are listed in the order of their insertion.
\<close>

datatype index_kind = Ordered | Hashed "nat \<Rightarrow> int"

fun place :: "index_kind \<Rightarrow> nat \<Rightarrow> int" where
  "place Ordered i = int i"
| "place (Hashed f) i = f i"

record ('v, 'k) index_spec =
  kind :: index_kind
  is_unique :: bool
  key_of :: "'v \<Rightarrow> 'k"

record ('v, 'k) multi_index_container =
  indexed_by :: "('v, 'k) index_spec list"
  nodes :: "'v node list"
  next_id :: nat

definition has_key :: "('v, 'k) index_spec \<Rightarrow> 'k \<Rightarrow> 'v node \<Rightarrow> bool" where
  "has_key s k n = (key_of s (snd n) = k)"

text \<open>
  \<^verbatim>\<open>index.equal_range(key)\<close>: the elements of one key, in the order of the index (by
  place, and by insertion among nodes of one place). Relocating an element in index 0
  does not move it in any other index.
\<close>

definition index_equal_range :: "('v, 'k) index_spec \<Rightarrow> 'k \<Rightarrow> 'v node list \<Rightarrow> 'v node list" where
  "index_equal_range s k xs =
     sort_key (\<lambda>n. place (kind s) (fst n)) (sort_key fst (filter (has_key s k) xs))"

text \<open>\<^verbatim>\<open>index.find(key)\<close>: the first element of the key in the index, or \<^verbatim>\<open>end()\<close> (\<open>None\<close>).\<close>

definition index_find :: "('v, 'k) index_spec \<Rightarrow> 'k \<Rightarrow> 'v node list \<Rightarrow> 'v node option" where
  "index_find s k xs = (case index_equal_range s k xs of [] \<Rightarrow> None | n # _ \<Rightarrow> Some n)"

text \<open>
  An insertion asks the indices in their declared order; the first unique index that
  already holds an element of the new value's key bans the insertion and names that
  element.
\<close>

fun banned_by :: "('v, 'k) index_spec list \<Rightarrow> 'v node list \<Rightarrow> 'v \<Rightarrow> 'v node option" where
  "banned_by [] xs v = None"
| "banned_by (s # ss) xs v =
     (if is_unique s then
        (case List.find (has_key s (key_of s v)) xs of
           Some n \<Rightarrow> Some n
         | None \<Rightarrow> banned_by ss xs v)
      else banned_by ss xs v)"

text \<open>
  \<^verbatim>\<open>seq_index.emplace_front(args...)\<close>: the pair of an iterator and a flag. When the
  insertion is banned the container is left as it was and the iterator is the banning
  element; otherwise the new node is linked at the front.
\<close>

definition emplace_front ::
  "'v \<Rightarrow> ('v, 'k) multi_index_container \<Rightarrow> (nat \<times> bool) \<times> ('v, 'k) multi_index_container" where
  "emplace_front v m =
     (case banned_by (indexed_by m) (nodes m) v of
        Some n \<Rightarrow> ((fst n, False), m)
      | None \<Rightarrow> ((next_id m, True),
                 m\<lparr>nodes := (next_id m, v) # nodes m, next_id := Suc (next_id m)\<rparr>))"

text \<open>\<^verbatim>\<open>seq_index.relocate(seq_index.begin(), it)\<close>: the node of \<open>it\<close> is moved to the front.\<close>

definition relocate_begin :: "nat \<Rightarrow> ('v, 'k) multi_index_container \<Rightarrow> ('v, 'k) multi_index_container" where
  "relocate_begin i m =
     (case List.find (\<lambda>n. fst n = i) (nodes m) of
        None \<Rightarrow> m
      | Some n \<Rightarrow> m\<lparr>nodes := n # remove1 n (nodes m)\<rparr>)"

text \<open>\<^verbatim>\<open>seq_index.pop_back()\<close>: the last node leaves every index.\<close>

definition pop_back :: "('v, 'k) multi_index_container \<Rightarrow> ('v, 'k) multi_index_container" where
  "pop_back m = m\<lparr>nodes := butlast (nodes m)\<rparr>"

text \<open>\<^verbatim>\<open>index.erase(key)\<close>: every element of the key leaves; the result is their number.\<close>

definition index_erase_key ::
  "('v, 'k) index_spec \<Rightarrow> 'k \<Rightarrow> ('v, 'k) multi_index_container \<Rightarrow> nat \<times> ('v, 'k) multi_index_container" where
  "index_erase_key s k m =
     (length (filter (has_key s k) (nodes m)),
      m\<lparr>nodes := filter (\<lambda>n. \<not> has_key s k n) (nodes m)\<rparr>)"

text \<open>\<^verbatim>\<open>index.erase(it)\<close>: the node of \<open>it\<close> leaves every index.\<close>

definition index_erase_it :: "nat \<Rightarrow> ('v, 'k) multi_index_container \<Rightarrow> ('v, 'k) multi_index_container" where
  "index_erase_it i m = m\<lparr>nodes := filter (\<lambda>n. fst n \<noteq> i) (nodes m)\<rparr>"

definition mic_size :: "('v, 'k) multi_index_container \<Rightarrow> nat" where
  "mic_size m = length (nodes m)"

definition mic_clear :: "('v, 'k) multi_index_container \<Rightarrow> ('v, 'k) multi_index_container" where
  "mic_clear m = m\<lparr>nodes := []\<rparr>"

text \<open>Node identities are pairwise different and older than the next one to be given.\<close>

definition ids_ok :: "('v, 'k) multi_index_container \<Rightarrow> bool" where
  "ids_ok m = (distinct (map fst (nodes m)) \<and> list_all (\<lambda>n. fst n < next_id m) (nodes m))"

section \<open>Container (container.hpp)\<close>

record ('v, 'k) Container =
  container :: "('v, 'k) multi_index_container"
  max_size :: nat

definition Container_new :: "('v, 'k) index_spec list \<Rightarrow> nat \<Rightarrow> ('v, 'k) Container" where
  "Container_new ixs n =
     \<lparr>container = \<lparr>indexed_by = ixs, nodes = [], next_id = 0\<rparr>, max_size = n\<rparr>"

definition Container_emplace :: "'v \<Rightarrow> ('v, 'k) Container \<Rightarrow> bool \<times> ('v, 'k) Container" where
  "Container_emplace v c =
     (let (result, m) = emplace_front v (container c) in
      if \<not> snd result then (snd result, c\<lparr>container := relocate_begin (fst result) m\<rparr>)
      else if mic_size m > max_size c then (snd result, c\<lparr>container := pop_back m\<rparr>)
      else (snd result, c\<lparr>container := m\<rparr>))"

definition Container_insert :: "'v \<Rightarrow> ('v, 'k) Container \<Rightarrow> bool \<times> ('v, 'k) Container" where
  "Container_insert v c = Container_emplace v c"

text \<open>\<^verbatim>\<open>find<Tag>(key)\<close>: the iterator found (\<open>None\<close> is \<^verbatim>\<open>end()\<close>) and the container after the call.\<close>

definition Container_find ::
  "('v, 'k) index_spec \<Rightarrow> 'k \<Rightarrow> ('v, 'k) Container \<Rightarrow> nat option \<times> ('v, 'k) Container" where
  "Container_find tag k c =
     (case index_find tag k (nodes (container c)) of
        Some n \<Rightarrow> (Some (fst n), c\<lparr>container := relocate_begin (fst n) (container c)\<rparr>)
      | None \<Rightarrow> (None, c))"

definition Container_contains ::
  "('v, 'k) index_spec \<Rightarrow> 'k \<Rightarrow> ('v, 'k) Container \<Rightarrow> bool \<times> ('v, 'k) Container" where
  "Container_contains tag k c = (let (it, c') = Container_find tag k c in (it \<noteq> None, c'))"

definition Container_erase ::
  "('v, 'k) index_spec \<Rightarrow> 'k \<Rightarrow> ('v, 'k) Container \<Rightarrow> bool \<times> ('v, 'k) Container" where
  "Container_erase tag k c =
     (let (count, m) = index_erase_key tag k (container c) in (count > 0, c\<lparr>container := m\<rparr>))"

definition Container_size :: "('v, 'k) Container \<Rightarrow> nat" where
  "Container_size c = mic_size (container c)"

definition Container_empty :: "('v, 'k) Container \<Rightarrow> bool" where
  "Container_empty c = (nodes (container c) = [])"

definition Container_capacity :: "('v, 'k) Container \<Rightarrow> nat" where
  "Container_capacity c = max_size c"

text \<open>The loop of \<^verbatim>\<open>set_capacity\<close>: \<^verbatim>\<open>while (container_.size() > max_size_) seq_index.pop_back();\<close>\<close>

function set_capacity_loop :: "('v, 'k) Container \<Rightarrow> ('v, 'k) Container" where
  "set_capacity_loop c =
     (if mic_size (container c) > max_size c
      then set_capacity_loop (c\<lparr>container := pop_back (container c)\<rparr>)
      else c)"
  by pat_completeness auto
termination
  by (relation "measure (\<lambda>c. length (nodes (container c)))")
     (auto simp: mic_size_def pop_back_def)

declare set_capacity_loop.simps [simp del]

definition Container_set_capacity :: "nat \<Rightarrow> ('v, 'k) Container \<Rightarrow> ('v, 'k) Container" where
  "Container_set_capacity new_capacity c = set_capacity_loop (c\<lparr>max_size := new_capacity\<rparr>)"

definition Container_clear :: "('v, 'k) Container \<Rightarrow> ('v, 'k) Container" where
  "Container_clear c = c\<lparr>container := mic_clear (container c)\<rparr>"

text \<open>The elements in the order of the recency list, most recently used first.\<close>

definition Container_items :: "('v, 'k) Container \<Rightarrow> 'v list" where
  "Container_items c = map snd (nodes (container c))"

section \<open>ExpirableContainer (expirable\_container.hpp)\<close>

text \<open>
  Time: \<^verbatim>\<open>clock_type::now()\<close> is an input of each operation that reads the clock. A time
  point of \<^verbatim>\<open>std::chrono::steady_clock\<close> counts nanoseconds and the TTL
  (\<^verbatim>\<open>std::chrono::milliseconds\<close>) counts milliseconds, each in a signed 64-bit integer.
  The model keeps the counts as integers and writes the 64-bit arithmetic out: \<open>wrap64\<close> is
  the two's-complement result of an \<^verbatim>\<open>int64_t\<close> operation (signed overflow is undefined in
  C++; the compiled code wraps).
\<close>

definition wrap64 :: "int \<Rightarrow> int" where
  "wrap64 x = (x + 2 ^ 63) mod 2 ^ 64 - 2 ^ 63"

text \<open>The values of \<^verbatim>\<open>int64_t\<close>.\<close>

definition representable :: "int \<Rightarrow> bool" where
  "representable x = (- (2 ^ 63) \<le> x \<and> x < 2 ^ 63)"

text \<open>
  \<^verbatim>\<open>it->last_accessed + ttl_\<close>: the TTL is converted to the clock's nanoseconds (its count
  times 1000000) and added to the count of the time point, both in \<^verbatim>\<open>int64_t\<close>.
\<close>

definition time_point_plus :: "int \<Rightarrow> int \<Rightarrow> int" where
  "time_point_plus tp d = wrap64 (tp + wrap64 (d * 1000000))"

text \<open>
  Modelled from the spec: \<^verbatim>\<open>detail::TimestampedValue<Value>\<close>, whose declaration is missing
  from expirable\_container.hpp: the envelope \<^verbatim>\<open>{ value, last_accessed }\<close>, built from a
  payload with \<^verbatim>\<open>last_accessed\<close> the time of its construction; \<^verbatim>\<open>last_accessed\<close> is
  assigned through index iterators, so it is a mutable member and no part of any key.
\<close>

record 'p TimestampedValue =
  tv_value :: 'p
  last_accessed :: int

text \<open>
  Modelled from the spec: the constructor of \<^verbatim>\<open>detail::TimestampedValue<Value>\<close>, missing
  with its declaration: \<^verbatim>\<open>Envelope{payload, now}\<close>.
\<close>

definition TimestampedValue_new :: "int \<Rightarrow> 'p \<Rightarrow> 'p TimestampedValue" where
  "TimestampedValue_new now p = \<lparr>tv_value = p, last_accessed = now\<rparr>"

text \<open>
  The key extractors of an ExpirableContainer are declared over the envelope and read the
  payload through it (\<^verbatim>\<open>wrapped.value.id\<close> in the tests and the example).
\<close>

definition wrapped :: "('p, 'k) index_spec \<Rightarrow> ('p TimestampedValue, 'k) index_spec" where
  "wrapped s = \<lparr>kind = kind s, is_unique = is_unique s, key_of = (\<lambda>w. key_of s (tv_value w))\<rparr>"

record ('p, 'k) ExpirableContainer =
  exp_container :: "('p TimestampedValue, 'k) Container"
  ttl :: int

text \<open>
  \<^verbatim>\<open>assert(cond)\<close> of \<^verbatim>\<open><cassert>\<close>: aborts the program when the condition is false,
  and is an empty statement when the translation unit is compiled with \<^verbatim>\<open>NDEBUG\<close> defined.
\<close>

datatype error = Assertion_failed

definition c_assert :: "bool \<Rightarrow> bool \<Rightarrow> error + unit" where
  "c_assert ndebug cond = (if ndebug \<or> cond then Inr () else Inl Assertion_failed)"

definition ExpirableContainer_new ::
  "bool \<Rightarrow> ('p, 'k) index_spec list \<Rightarrow> nat \<Rightarrow> int \<Rightarrow> error + ('p, 'k) ExpirableContainer" where
  "ExpirableContainer_new ndebug ixs n t =
     (let e = \<lparr>exp_container = Container_new (map wrapped ixs) n, ttl = t\<rparr> in
      case c_assert ndebug (t > 0) of Inl err \<Rightarrow> Inl err | Inr _ \<Rightarrow> Inr e)"

text \<open>
  Modelled from the spec: \<^verbatim>\<open>Container::get_sequenced()\<close> and \<^verbatim>\<open>Container::get_index<Tag>()\<close>
  are missing from container.hpp; they are the views \<^verbatim>\<open>container_.get<0>()\<close> and
  \<^verbatim>\<open>container_.get<Tag>()\<close> of the underlying container, which the functions on
  \<open>multi_index_container\<close> above operate on.
\<close>

definition get_sequenced :: "('p, 'k) ExpirableContainer \<Rightarrow> ('p TimestampedValue, 'k) multi_index_container" where
  "get_sequenced e = container (exp_container e)"

text \<open>The wrapper with the underlying container as a call on one of its views left it.\<close>

definition put_sequenced ::
  "('p TimestampedValue, 'k) multi_index_container \<Rightarrow> ('p, 'k) ExpirableContainer \<Rightarrow> ('p, 'k) ExpirableContainer" where
  "put_sequenced m e = e\<lparr>exp_container := (exp_container e)\<lparr>container := m\<rparr>\<rparr>"

text \<open>\<^verbatim>\<open>it->last_accessed = t\<close> on the node of \<open>it\<close>.\<close>

definition set_last_accessed ::
  "nat \<Rightarrow> int \<Rightarrow> ('p TimestampedValue, 'k) multi_index_container \<Rightarrow> ('p TimestampedValue, 'k) multi_index_container" where
  "set_last_accessed i t m =
     m\<lparr>nodes := map (\<lambda>n. if fst n = i then (fst n, (snd n)\<lparr>last_accessed := t\<rparr>) else n) (nodes m)\<rparr>"

text \<open>The test of the code, \<^verbatim>\<open>now > it->last_accessed + ttl_\<close>, on the node \<open>n\<close>.\<close>

definition expired :: "int \<Rightarrow> int \<Rightarrow> 'p TimestampedValue node \<Rightarrow> bool" where
  "expired now t n = (now > time_point_plus (last_accessed (snd n)) t)"

text \<open>
  \<^verbatim>\<open>emplace\<close>: the envelope is built (reading the clock) before the insertion is tried;
  when the insertion is banned the clock is read again for the refresh. Either branch uses
  one reading, \<open>now\<close>.
\<close>

definition Expirable_emplace ::
  "int \<Rightarrow> 'p \<Rightarrow> ('p, 'k) ExpirableContainer \<Rightarrow> (nat \<times> bool) \<times> ('p, 'k) ExpirableContainer" where
  "Expirable_emplace now p e =
     (let (result, m) = emplace_front (TimestampedValue_new now p) (get_sequenced e) in
      if \<not> snd result then
        (result, put_sequenced (relocate_begin (fst result) (set_last_accessed (fst result) now m)) e)
      else if mic_size m > Container_capacity (exp_container e) then
        (result, put_sequenced (pop_back m) e)
      else (result, put_sequenced m e))"


text \<open>
  The lookups return \<^verbatim>\<open>detail::TimestampedIteratorWrapper{it}\<close> (its declaration is missing
  from expirable\_container.hpp), which wraps the iterator of the index; the model returns
  the iterator, \<open>None\<close> for \<^verbatim>\<open>end()\<close>.
\<close>

definition Expirable_find ::
  "int \<Rightarrow> ('p, 'k) index_spec \<Rightarrow> 'k \<Rightarrow> ('p, 'k) ExpirableContainer \<Rightarrow>
     nat option \<times> ('p, 'k) ExpirableContainer" where
  "Expirable_find now tag k e =
     (case index_find (wrapped tag) k (nodes (get_sequenced e)) of
        Some n \<Rightarrow>
          if now > time_point_plus (last_accessed (snd n)) (ttl e)
          then (None, put_sequenced (index_erase_it (fst n) (get_sequenced e)) e)
          else (Some (fst n),
                put_sequenced (relocate_begin (fst n) (set_last_accessed (fst n) now (get_sequenced e))) e)
      | None \<Rightarrow> (None, e))"

text \<open>
  Modelled from the spec: \<^verbatim>\<open>Container::find_no_update<Tag>(key)\<close> is missing from
  container.hpp: the same lookup as \<^verbatim>\<open>find\<close>, which never refreshes recency.
\<close>

definition Container_find_no_update ::
  "('v, 'k) index_spec \<Rightarrow> 'k \<Rightarrow> ('v, 'k) Container \<Rightarrow> nat option \<times> ('v, 'k) Container" where
  "Container_find_no_update tag k c =
     (map_option fst (index_find tag k (nodes (container c))), c)"


definition Expirable_find_no_update ::
  "('p, 'k) index_spec \<Rightarrow> 'k \<Rightarrow> ('p, 'k) ExpirableContainer \<Rightarrow>
     nat option \<times> ('p, 'k) ExpirableContainer" where
  "Expirable_find_no_update tag k e =
     (let (it, c) = Container_find_no_update (wrapped tag) k (exp_container e)
      in (it, e\<lparr>exp_container := c\<rparr>))"





definition Expirable_erase ::
  "('p, 'k) index_spec \<Rightarrow> 'k \<Rightarrow> ('p, 'k) ExpirableContainer \<Rightarrow> bool \<times> ('p, 'k) ExpirableContainer" where
  "Expirable_erase tag k e =
     (let (r, c) = Container_erase (wrapped tag) k (exp_container e) in (r, e\<lparr>exp_container := c\<rparr>))"


definition Expirable_capacity :: "('p, 'k) ExpirableContainer \<Rightarrow> nat" where
  "Expirable_capacity e = Container_capacity (exp_container e)"






definition set_ttl :: "bool \<Rightarrow> int \<Rightarrow> ('p, 'k) ExpirableContainer \<Rightarrow> error + ('p, 'k) ExpirableContainer" where
  "set_ttl ndebug new_ttl e =
     (case c_assert ndebug (new_ttl > 0) of
        Inl err \<Rightarrow> Inl err
      | Inr _ \<Rightarrow> Inr (e\<lparr>ttl := new_ttl\<rparr>))"

section \<open>Sequences of public operations\<close>

text \<open>
  The public operations of Container that can change it (\<^verbatim>\<open>size\<close>, \<^verbatim>\<open>empty\<close>,
  \<^verbatim>\<open>capacity\<close>, \<^verbatim>\<open>begin\<close> and \<^verbatim>\<open>end\<close> only read; what a caller does to the
  underlying container through \<^verbatim>\<open>get_container()\<close> is no operation of the cache).
\<close>

datatype ('v, 'k) container_op =
    Emplace 'v
  | Insert 'v
  | Find "('v, 'k) index_spec" 'k
  | Contains "('v, 'k) index_spec" 'k
  | Erase "('v, 'k) index_spec" 'k
  | Set_capacity nat
  | Clear

fun Container_step :: "('v, 'k) container_op \<Rightarrow> ('v, 'k) Container \<Rightarrow> ('v, 'k) Container" where
  "Container_step (Emplace v) c = snd (Container_emplace v c)"
| "Container_step (Insert v) c = snd (Container_insert v c)"
| "Container_step (Find tag k) c = snd (Container_find tag k c)"
| "Container_step (Contains tag k) c = snd (Container_contains tag k c)"
| "Container_step (Erase tag k) c = snd (Container_erase tag k c)"
| "Container_step (Set_capacity n) c = Container_set_capacity n c"
| "Container_step Clear c = Container_clear c"

fun Container_run :: "('v, 'k) container_op list \<Rightarrow> ('v, 'k) Container \<Rightarrow> ('v, 'k) Container" where
  "Container_run [] c = c"
| "Container_run (op # ops) c = Container_run ops (Container_step op c)"

text \<open>Two values collide when a unique index of the list gives them one key.\<close>

definition collide :: "('v, 'k) index_spec list \<Rightarrow> 'v \<Rightarrow> 'v \<Rightarrow> bool" where
  "collide ixs v w = list_ex (\<lambda>s. is_unique s \<and> key_of s v = key_of s w) ixs"




section \<open>Index declarations of the tests\<close>

text \<open>
  The users of container\_test.cpp and expirable\_test.cpp, cut down to an id and a name:
  \<^verbatim>\<open>IdTag\<close> is an \<^verbatim>\<open>ordered_unique\<close> index on the id, \<^verbatim>\<open>NameTag\<close> an
  \<^verbatim>\<open>ordered_non_unique\<close> index on the name.
\<close>

definition IdTag :: "(int \<times> string, int + string) index_spec" where
  "IdTag = \<lparr>kind = Ordered, is_unique = True, key_of = (\<lambda>u. Inl (fst u))\<rparr>"

definition NameTag :: "(int \<times> string, int + string) index_spec" where
  "NameTag = \<lparr>kind = Ordered, is_unique = False, key_of = (\<lambda>u. Inr (snd u))\<rparr>"

text \<open>
  The cache of the TTL tests (capacity 100, TTL \<open>t\<close> milliseconds) after
  \<^verbatim>\<open>insert({1, "Alice"})\<close> at time 0.
\<close>

definition one_user_cache :: "int \<Rightarrow> (int \<times> string, int + string) ExpirableContainer" where
  "one_user_cache t =
     \<lparr>exp_container =
        \<lparr>container = \<lparr>indexed_by = [wrapped IdTag, wrapped NameTag],
                      nodes = [(0, \<lparr>tv_value = (1, ''Alice''), last_accessed = 0\<rparr>)],
                      next_id = 1\<rparr>,
         max_size = 100\<rparr>,
      ttl = t\<rparr>"

text \<open>
  The cache of test EqualRangeRemovesExpired and of the example (capacity 10, TTL \<open>t\<close>
  milliseconds): two users named John, inserted at the times \<open>t1\<close> and \<open>t2\<close> (nanoseconds),
  and after them Alice.
\<close>

definition johns_cache :: "int \<Rightarrow> int \<Rightarrow> int \<Rightarrow> (int \<times> string, int + string) ExpirableContainer" where
  "johns_cache t1 t2 t =
     \<lparr>exp_container =
        \<lparr>container = \<lparr>indexed_by = [wrapped IdTag, wrapped NameTag],
                      nodes = [(2, \<lparr>tv_value = (3, ''Alice''), last_accessed = t2\<rparr>),
                               (1, \<lparr>tv_value = (2, ''John''), last_accessed = t2\<rparr>),
                               (0, \<lparr>tv_value = (1, ''John''), last_accessed = t1\<rparr>)],
                      next_id = 3\<rparr>,
         max_size = 10\<rparr>,
      ttl = t\<rparr>"

section \<open>Predicates of the statements\<close>

text \<open>\<^verbatim>\<open>size() <= capacity()\<close>.\<close>

definition within_capacity :: "('v, 'k) Container \<Rightarrow> bool" where
  "within_capacity c = (Container_size c \<le> Container_capacity c)"

text \<open>No value of the list collides with a later one: emplaced in this order, each is new.\<close>

fun fresh_sequence :: "('v, 'k) index_spec list \<Rightarrow> 'v list \<Rightarrow> bool" where
  "fresh_sequence ixs [] = True"
| "fresh_sequence ixs (v # vs) = (list_all (\<lambda>w. \<not> collide ixs v w) vs \<and> fresh_sequence ixs vs)"

text \<open>
  The node \<open>n\<close> is older than the TTL of \<open>t\<close> milliseconds at the time \<open>now\<close>:
  \<open>now > last_accessed + ttl\<close>, in the integers.
\<close>

definition past_ttl :: "int \<Rightarrow> int \<Rightarrow> 'p TimestampedValue node \<Rightarrow> bool" where
  "past_ttl now t n = (last_accessed (snd n) + t * 1000000 < now)"

text \<open>The sum \<open>last_accessed + ttl\<close> of the node \<open>n\<close> is a value of the clock's \<^verbatim>\<open>int64_t\<close> count.\<close>

definition deadline_fits :: "int \<Rightarrow> 'p TimestampedValue node \<Rightarrow> bool" where
  "deadline_fits t n = representable (last_accessed (snd n) + t * 1000000)"

text \<open>The node \<open>n\<close> after \<^verbatim>\<open>it->last_accessed = now\<close>.\<close>

definition touched :: "int \<Rightarrow> 'p TimestampedValue node \<Rightarrow> 'p TimestampedValue node" where
  "touched now n = (fst n, (snd n)\<lparr>last_accessed := now\<rparr>)"





section \<open>Facts about the underlying container\<close>

lemma find_id_mem: "List.find P xs = Some n \<Longrightarrow> n \<in> set xs \<and> P n"
  by (induction xs) (auto split: if_splits)

lemma find_id_None: "List.find P xs = None \<longleftrightarrow> (\<forall>x\<in>set xs. \<not> P x)"
  by (induction xs) auto

lemma find_by_id:
  "distinct (map fst xs) \<Longrightarrow> n \<in> set xs \<Longrightarrow> List.find (\<lambda>x. fst x = fst n) xs = Some n"
  by (induction xs) (auto simp: rev_image_eqI)

lemma filter_other_ids: "i \<notin> fst ` set xs \<Longrightarrow> filter (\<lambda>x. fst x \<noteq> i) xs = xs"
  by (induction xs) auto

lemma remove1_by_id:
  "distinct (map fst xs) \<Longrightarrow> n \<in> set xs \<Longrightarrow> remove1 n xs = filter (\<lambda>x. fst x \<noteq> fst n) xs"
  by (induction xs) (auto simp: rev_image_eqI filter_other_ids)


lemma set_move_to_front: "n \<in> set xs \<Longrightarrow> set (n # remove1 n xs) = set xs"
  by (induction xs) auto

lemma relocate_begin_length: "length (nodes (relocate_begin i m)) = length (nodes m)"
proof (cases "List.find (\<lambda>n. fst n = i) (nodes m)")
  case None
  then show ?thesis by (simp add: relocate_begin_def)
next
  case (Some n)
  then have mem: "n \<in> set (nodes m)" by (simp add: find_id_mem)
  then have "length (remove1 n (nodes m)) = length (nodes m) - 1"
    by (simp add: length_remove1)
  moreover have "length (nodes m) > 0" using mem by (cases "nodes m") auto
  ultimately show ?thesis using Some by (simp add: relocate_begin_def)
qed

lemma relocate_begin_node:
  "distinct (map fst (nodes m)) \<Longrightarrow> n \<in> set (nodes m) \<Longrightarrow>
   relocate_begin (fst n) m = m\<lparr>nodes := n # remove1 n (nodes m)\<rparr>"
  by (simp add: relocate_begin_def find_by_id)

lemma banned_by_mem:
  "banned_by ixs xs v = Some n \<Longrightarrow> n \<in> set xs \<and> collide ixs (snd n) v"
  by (induction ixs)
     (auto simp: collide_def has_key_def split: if_splits option.splits dest: find_id_mem)

lemma banned_by_None: "banned_by ixs xs v = None \<longleftrightarrow> (\<forall>n\<in>set xs. \<not> collide ixs (snd n) v)"
proof (induction ixs)
  case Nil
  then show ?case by (simp add: collide_def)
next
  case (Cons s ss)
  show ?case
  proof (cases "is_unique s")
    case False
    then show ?thesis using Cons by (simp add: collide_def)
  next
    case True
    show ?thesis
    proof (cases "List.find (has_key s (key_of s v)) xs")
      case None
      then have "\<forall>n\<in>set xs. key_of s (snd n) \<noteq> key_of s v"
        by (simp add: find_id_None has_key_def)
      then show ?thesis using None True Cons by (auto simp: collide_def)
    next
      case (Some n)
      then have "n \<in> set xs \<and> key_of s (snd n) = key_of s v"
        using find_id_mem[OF Some] by (simp add: has_key_def)
      then show ?thesis using Some True by (auto simp: collide_def)
    qed
  qed
qed

section \<open>Container: emplace of a colliding item\<close>

lemma emplace_banned:
  assumes "ids_ok (container c)"
    and "banned_by (indexed_by (container c)) (nodes (container c)) v = Some n"
  shows "Container_emplace v c =
           (False, c\<lparr>container := (container c)\<lparr>nodes := n # remove1 n (nodes (container c))\<rparr>\<rparr>)"
proof -
  have mem: "n \<in> set (nodes (container c))" using banned_by_mem[OF assms(2)] by simp
  have "distinct (map fst (nodes (container c)))" using assms(1) by (simp add: ids_ok_def)
  then have "relocate_begin (fst n) (container c)
               = (container c)\<lparr>nodes := n # remove1 n (nodes (container c))\<rparr>"
    using mem by (rule relocate_begin_node)
  then show ?thesis using assms(2) by (simp add: Container_emplace_def emplace_front_def)
qed

text \<open>
  Claim C1, as the code has it. When the value \<open>v\<close> given to \<^verbatim>\<open>emplace\<close> has, under a
  unique index \<open>s\<close> of the cache, the key of an element already stored, then there is a
  stored element \<open>n\<close> colliding with \<open>v\<close> such that \<^verbatim>\<open>emplace\<close> returns false, moves \<open>n\<close>
  to the head of the recency list and changes nothing else: the size is the same, the
  head holds the payload stored before (not \<open>v\<close>), and the stored payloads are those
  stored before.
\<close>

theorem emplace_collision_keeps_stored_item:
  assumes "ids_ok (container c)"
    and "s \<in> set (indexed_by (container c))" and "is_unique s"
    and "old \<in> set (nodes (container c))" and "key_of s (snd old) = key_of s v"
  shows "\<exists>n. n \<in> set (nodes (container c)) \<and> collide (indexed_by (container c)) (snd n) v
           \<and> Container_emplace v c =
               (False, c\<lparr>container := (container c)\<lparr>nodes := n # remove1 n (nodes (container c))\<rparr>\<rparr>)
           \<and> Container_size (snd (Container_emplace v c)) = Container_size c
           \<and> hd (Container_items (snd (Container_emplace v c))) = snd n
           \<and> set (Container_items (snd (Container_emplace v c))) = set (Container_items c)"
proof -
  have "collide (indexed_by (container c)) (snd old) v"
    using assms(2,3,5) by (auto simp: collide_def list_ex_iff)
  then have "banned_by (indexed_by (container c)) (nodes (container c)) v \<noteq> None"
    using assms(4) by (auto simp: banned_by_None)
  then obtain n where n: "banned_by (indexed_by (container c)) (nodes (container c)) v = Some n"
    by auto
  have mem: "n \<in> set (nodes (container c))" and col: "collide (indexed_by (container c)) (snd n) v"
    using banned_by_mem[OF n] by simp_all
  have eq: "Container_emplace v c =
      (False, c\<lparr>container := (container c)\<lparr>nodes := n # remove1 n (nodes (container c))\<rparr>\<rparr>)"
    using assms(1) n by (rule emplace_banned)
  have len: "length (remove1 n (nodes (container c))) = length (nodes (container c)) - 1"
    using mem by (simp add: length_remove1)
  have pos: "0 < length (nodes (container c))" using mem by (cases "nodes (container c)") auto
  have sz: "Container_size (snd (Container_emplace v c)) = Container_size c"
    using len pos by (simp add: eq Container_size_def mic_size_def)
  have "set (n # remove1 n (nodes (container c))) = set (nodes (container c))"
    using mem by (rule set_move_to_front)
  then have "snd ` set (n # remove1 n (nodes (container c))) = snd ` set (nodes (container c))"
    by (rule arg_cong)
  then have st: "set (Container_items (snd (Container_emplace v c))) = set (Container_items c)"
    by (simp add: eq Container_items_def)
  have hd: "hd (Container_items (snd (Container_emplace v c))) = snd n"
    by (simp add: eq Container_items_def)
  show ?thesis using mem col eq sz hd st by blast
qed

theorem emplace_collision_witness:
  "\<exists>n. n \<in> set (nodes (container (snd (Container_emplace (1, ''old'') (Container_new [IdTag, NameTag] 3)))))
     \<and> collide [IdTag, NameTag] (snd n) (1, ''new'')
     \<and> Container_emplace (1, ''new'') (snd (Container_emplace (1, ''old'') (Container_new [IdTag, NameTag] 3))) =
         (False, snd (Container_emplace (1, ''old'') (Container_new [IdTag, NameTag] 3)))
     \<and> hd (Container_items (snd (Container_emplace (1, ''new'')
            (snd (Container_emplace (1, ''old'') (Container_new [IdTag, NameTag] 3)))))) = (1, ''old'')"
proof -
  let ?c = "snd (Container_emplace (1, ''old'') (Container_new [IdTag, NameTag] 3))"
  have c: "?c = \<lparr>container = \<lparr>indexed_by = [IdTag, NameTag], nodes = [(0, (1, ''old''))], next_id = 1\<rparr>,
                  max_size = 3\<rparr>"
    by (simp add: Container_emplace_def Container_new_def emplace_front_def mic_size_def)
  have h1: "ids_ok (container ?c)" by (simp add: c ids_ok_def)
  have h2: "IdTag \<in> set (indexed_by (container ?c))" by (simp add: c)
  have h3: "is_unique IdTag" by (simp add: IdTag_def)
  have h4: "(0, (1, ''old'')) \<in> set (nodes (container ?c))" by (simp add: c)
  have h5: "key_of IdTag (snd (0::nat, (1::int, ''old''))) = key_of IdTag (1, ''new'')"
    by (simp add: IdTag_def)
  from emplace_collision_keeps_stored_item[OF h1 h2 h3 h4 h5]
  show ?thesis by (simp add: c Container_items_def)
qed

text \<open>
  Claim C1 as stated fails: with a unique index on the id, after \<^verbatim>\<open>emplace({1, "old"})\<close>
  the call \<^verbatim>\<open>emplace({1, "new"})\<close> returns false and the cache still stores the payload
  \<^verbatim>\<open>{1, "old"}\<close>; the new payload is stored nowhere.
\<close>

theorem emplace_collision_counterexample:
  "fst (Container_emplace (1, ''new'')
          (snd (Container_emplace (1, ''old'') (Container_new [IdTag] 3)))) = False
   \<and> Container_items (snd (Container_emplace (1, ''new'')
          (snd (Container_emplace (1, ''old'') (Container_new [IdTag] 3))))) = [(1, ''old'')]
   \<and> (1, ''new'') \<notin> set (Container_items (snd (Container_emplace (1, ''new'')
          (snd (Container_emplace (1, ''old'') (Container_new [IdTag] 3))))))"
  by (simp add: Container_emplace_def Container_new_def emplace_front_def IdTag_def has_key_def
       mic_size_def relocate_begin_def Container_items_def)

section \<open>erase by key\<close>

text \<open>
  Claim C10. \<^verbatim>\<open>erase<Tag>(key)\<close>, of Container and of ExpirableContainer, removes every
  stored element whose key under the index of the tag is \<open>key\<close> and leaves the others as
  they are, in their order; it returns true exactly when an element of that key was
  stored. The nodes removed are gone from the one node list that the recency list and
  every index are views of.
\<close>

theorem erase_removes_every_match:
  "Container_erase tag k c =
     (filter (has_key tag k) (nodes (container c)) \<noteq> [],
      c\<lparr>container := (container c)\<lparr>nodes := filter (\<lambda>n. \<not> has_key tag k n) (nodes (container c))\<rparr>\<rparr>)
   \<and> Expirable_erase tag' k e =
     (filter (has_key (wrapped tag') k) (nodes (get_sequenced e)) \<noteq> [],
      put_sequenced ((get_sequenced e)\<lparr>nodes :=
         filter (\<lambda>n. \<not> has_key (wrapped tag') k n) (nodes (get_sequenced e))\<rparr>) e)"
  by (simp add: Container_erase_def Expirable_erase_def index_erase_key_def
       get_sequenced_def put_sequenced_def)

theorem erase_removes_every_match_witness:
  "Container_erase NameTag (Inr ''John'')
     \<lparr>container = \<lparr>indexed_by = [IdTag, NameTag],
                   nodes = [(2, (3, ''John'')), (1, (2, ''Alice'')), (0, (1, ''John''))],
                   next_id = 3\<rparr>,
      max_size = 5\<rparr>
   = (True,
      \<lparr>container = \<lparr>indexed_by = [IdTag, NameTag], nodes = [(1, (2, ''Alice''))], next_id = 3\<rparr>,
       max_size = 5\<rparr>)"
  using erase_removes_every_match
    [THEN conjunct1, of NameTag "Inr ''John''"
        "\<lparr>container = \<lparr>indexed_by = [IdTag, NameTag],
                   nodes = [(2, (3, ''John'')), (1, (2, ''Alice'')), (0, (1, ''John''))],
                   next_id = 3\<rparr>,
      max_size = 5\<rparr>"]
  by (simp add: has_key_def NameTag_def)

section \<open>Container: the capacity bound\<close>

lemma set_capacity_loop_take:
  "set_capacity_loop c = c\<lparr>container := (container c)\<lparr>nodes := take (max_size c) (nodes (container c))\<rparr>\<rparr>"
proof (induction c rule: set_capacity_loop.induct)
  case (1 c)
  show ?case
  proof (cases "mic_size (container c) > max_size c")
    case True
    then have "take (max_size c) (butlast (nodes (container c))) = take (max_size c) (nodes (container c))"
      by (simp add: mic_size_def take_butlast)
    then show ?thesis
      using True "1.IH" by (subst set_capacity_loop.simps) (simp add: pop_back_def)
  next
    case False
    then show ?thesis
      by (subst set_capacity_loop.simps) (simp add: mic_size_def)
  qed
qed

lemma set_capacity_take:
  "Container_set_capacity n c = c\<lparr>max_size := n, container := (container c)\<lparr>nodes := take n (nodes (container c))\<rparr>\<rparr>"
  by (simp add: Container_set_capacity_def set_capacity_loop_take)

lemma emplace_fresh:
  assumes "banned_by (indexed_by (container c)) (nodes (container c)) v = None"
  shows "Container_emplace v c =
     (True, c\<lparr>container := (container c)\<lparr>
        nodes := (if length (nodes (container c)) < max_size c
                  then (next_id (container c), v) # nodes (container c)
                  else butlast ((next_id (container c), v) # nodes (container c))),
        next_id := Suc (next_id (container c))\<rparr>\<rparr>)"
  using assms by (simp add: Container_emplace_def emplace_front_def mic_size_def pop_back_def)

lemma emplace_within:
  assumes "within_capacity c" shows "within_capacity (snd (Container_emplace v c))"
proof (cases "banned_by (indexed_by (container c)) (nodes (container c)) v")
  case None
  have "length (nodes (container c)) \<le> max_size c"
    using assms by (simp add: within_capacity_def Container_size_def Container_capacity_def mic_size_def)
  then show ?thesis unfolding emplace_fresh[OF None]
    by (cases "nodes (container c)")
       (auto simp: within_capacity_def Container_size_def Container_capacity_def mic_size_def)
next
  case (Some n)
  then show ?thesis using assms
    by (simp add: Container_emplace_def emplace_front_def within_capacity_def Container_size_def
        Container_capacity_def mic_size_def relocate_begin_length)
qed

lemma step_within:
  "within_capacity c \<Longrightarrow> within_capacity (Container_step op c)"
proof (cases op)
  case (Emplace v) then show "within_capacity c \<Longrightarrow> ?thesis" by (simp add: emplace_within)
next
  case (Insert v) then show "within_capacity c \<Longrightarrow> ?thesis" by (simp add: emplace_within Container_insert_def)
next
  case (Find tag k) then show "within_capacity c \<Longrightarrow> ?thesis"
    by (auto simp: Container_find_def within_capacity_def Container_size_def Container_capacity_def
        mic_size_def relocate_begin_length split: option.splits)
next
  case (Contains tag k) then show "within_capacity c \<Longrightarrow> ?thesis"
    by (auto simp: Container_contains_def Container_find_def within_capacity_def Container_size_def Container_capacity_def
        mic_size_def relocate_begin_length split: option.splits)
next
  case (Erase tag k) 
  have "length (filter (\<lambda>n. \<not> has_key tag k n) (nodes (container c))) \<le> max_size c"
    if "length (nodes (container c)) \<le> max_size c"
    using that by (rule order_trans[OF length_filter_le])
  with Erase show "within_capacity c \<Longrightarrow> ?thesis"
    by (simp add: Container_erase_def index_erase_key_def within_capacity_def Container_size_def Container_capacity_def
        mic_size_def)
next
  case (Set_capacity n) then show "within_capacity c \<Longrightarrow> ?thesis"
    by (simp add: set_capacity_take within_capacity_def Container_size_def Container_capacity_def
        mic_size_def)
next
  case Clear then show "within_capacity c \<Longrightarrow> ?thesis"
    by (simp add: Container_clear_def mic_clear_def within_capacity_def Container_size_def Container_capacity_def
        mic_size_def)
qed

lemma run_within: "within_capacity c \<Longrightarrow> within_capacity (Container_run ops c)"
  by (induction ops arbitrary: c) (simp_all add: step_within)

lemma new_within: "within_capacity (Container_new ixs n)"
  by (simp add: within_capacity_def Container_new_def Container_size_def mic_size_def)

text \<open>
  Claim C3. After every sequence of public operations on a newly constructed cache (of
  any capacity, so of every capacity \<open>\<ge> 1\<close>), \<^verbatim>\<open>size() <= capacity()\<close>; every prefix of
  a sequence is a sequence, so the bound holds after each operation. An \<^verbatim>\<open>emplace\<close> of a
  value that no unique index bans, into a cache of capacity \<open>\<ge> 1\<close> whose size would
  exceed the capacity, links the new node at the head and evicts exactly the node that
  was the tail. \<^verbatim>\<open>set_capacity(n)\<close> keeps the first \<open>n\<close> nodes of the recency list and drops
  the others from the tail, so that \<^verbatim>\<open>size() <= capacity()\<close> when it returns.
\<close>

theorem size_never_exceeds_capacity:
  "Container_size (Container_run ops (Container_new ixs cap))
     \<le> Container_capacity (Container_run ops (Container_new ixs cap))
   \<and> (1 \<le> max_size c \<and> max_size c < Container_size c + 1
        \<and> banned_by (indexed_by (container c)) (nodes (container c)) v = None
      \<longrightarrow> Container_emplace v c =
            (True, c\<lparr>container := (container c)\<lparr>
                nodes := (next_id (container c), v) # butlast (nodes (container c)),
                next_id := Suc (next_id (container c))\<rparr>\<rparr>))
   \<and> Container_set_capacity n c' =
        c'\<lparr>max_size := n, container := (container c')\<lparr>nodes := take n (nodes (container c'))\<rparr>\<rparr>
   \<and> Container_size (Container_set_capacity n c') \<le> Container_capacity (Container_set_capacity n c')"
proof -
  have a: "Container_size (Container_run ops (Container_new ixs cap))
     \<le> Container_capacity (Container_run ops (Container_new ixs cap))"
    using run_within[OF new_within] by (simp add: within_capacity_def)
  have b: "Container_emplace v c =
            (True, c\<lparr>container := (container c)\<lparr>
                nodes := (next_id (container c), v) # butlast (nodes (container c)),
                next_id := Suc (next_id (container c))\<rparr>\<rparr>)"
    if "1 \<le> max_size c" "max_size c < Container_size c + 1" 
       "banned_by (indexed_by (container c)) (nodes (container c)) v = None"
  proof -
    have "nodes (container c) \<noteq> []" using that(1,2) by (auto simp: Container_size_def mic_size_def)
    moreover have "\<not> length (nodes (container c)) < max_size c" 
      using that(2) by (simp add: Container_size_def mic_size_def)
    ultimately show ?thesis unfolding emplace_fresh[OF that(3)] by simp
  qed
  have d: "Container_size (Container_set_capacity n c') \<le> Container_capacity (Container_set_capacity n c')"
    by (simp add: set_capacity_take Container_size_def Container_capacity_def mic_size_def)
  show ?thesis using a b d set_capacity_take by blast
qed

theorem size_never_exceeds_capacity_witness:
  "Container_size (Container_run [Emplace (1, ''a''), Emplace (2, ''b''), Find IdTag (Inl 1), Emplace (3, ''c''), Set_capacity 1]
       (Container_new [IdTag] 2)) = 1
   \<and> Container_capacity (Container_run [Emplace (1, ''a''), Emplace (2, ''b''), Find IdTag (Inl 1), Emplace (3, ''c''), Set_capacity 1]
       (Container_new [IdTag] 2)) = 1
   \<and> Container_emplace (3, ''c'')
        \<lparr>container = \<lparr>indexed_by = [IdTag], nodes = [(0, (1, ''a'')), (1, (2, ''b''))], next_id = 2\<rparr>, max_size = 2\<rparr>
      = (True, \<lparr>container = \<lparr>indexed_by = [IdTag], nodes = [(2, (3, ''c'')), (0, (1, ''a''))], next_id = 3\<rparr>, max_size = 2\<rparr>)
   \<and> Container_set_capacity 1
        \<lparr>container = \<lparr>indexed_by = [IdTag], nodes = [(2, (3, ''c'')), (0, (1, ''a''))], next_id = 3\<rparr>, max_size = 2\<rparr>
      = \<lparr>container = \<lparr>indexed_by = [IdTag], nodes = [(2, (3, ''c''))], next_id = 3\<rparr>, max_size = 1\<rparr>"
proof -
  let ?c = "\<lparr>container = \<lparr>indexed_by = [IdTag], nodes = [(0::nat, (1::int, ''a'')), (1, (2, ''b''))], next_id = 2\<rparr>, max_size = 2\<rparr>"
  let ?c' = "\<lparr>container = \<lparr>indexed_by = [IdTag], nodes = [(2::nat, (3::int, ''c'')), (0, (1, ''a''))], next_id = 3\<rparr>, max_size = 2\<rparr>"
  let ?ops = "[Emplace (1, ''a''), Emplace (2, ''b''), Find IdTag (Inl 1), Emplace (3, ''c''), Set_capacity 1]"
  have run: "Container_run ?ops (Container_new [IdTag] 2)
      = \<lparr>container = \<lparr>indexed_by = [IdTag], nodes = [(2, (3, ''c''))], next_id = 3\<rparr>, max_size = 1\<rparr>"
    by (simp add: Container_new_def Container_emplace_def emplace_front_def IdTag_def has_key_def
        mic_size_def relocate_begin_def pop_back_def Container_find_def index_find_def index_equal_range_def
        Container_set_capacity_def set_capacity_loop.simps)
  have h: "1 \<le> max_size ?c \<and> max_size ?c < Container_size ?c + 1
        \<and> banned_by (indexed_by (container ?c)) (nodes (container ?c)) (3, ''c'') = None"
    by (simp add: Container_size_def mic_size_def IdTag_def has_key_def)
  note t = size_never_exceeds_capacity[of ?ops "[IdTag]" 2 ?c "(3, ''c'')" 1 ?c']
  have a: "Container_size (Container_run ?ops (Container_new [IdTag] 2)) = 1
      \<and> Container_capacity (Container_run ?ops (Container_new [IdTag] 2)) = 1"
    unfolding run by (simp add: Container_size_def Container_capacity_def mic_size_def)
  have b: "Container_emplace (3, ''c'') ?c = (True, ?c')"
    using t h by simp
  have c: "Container_set_capacity 1 ?c'
      = \<lparr>container = \<lparr>indexed_by = [IdTag], nodes = [(2, (3, ''c''))], next_id = 3\<rparr>, max_size = 1\<rparr>"
    using t by simp
  show ?thesis using a b c by blast
qed

section \<open>Container: find and the order of the recency list\<close>

lemma find_hit:
  assumes "ids_ok (container x)" and "index_find tag k (nodes (container x)) = Some n"
  shows "Container_find tag k x =
     (Some (fst n), x\<lparr>container := (container x)\<lparr>nodes := n # remove1 n (nodes (container x))\<rparr>\<rparr>)"
proof -
  have "n \<in> set (index_equal_range tag k (nodes (container x)))"
    using assms(2) by (auto simp: index_find_def split: list.splits)
  then have mem: "n \<in> set (nodes (container x))" by (simp add: index_equal_range_def)
  have "distinct (map fst (nodes (container x)))" using assms(1) by (simp add: ids_ok_def)
  then have "relocate_begin (fst n) (container x)
               = (container x)\<lparr>nodes := n # remove1 n (nodes (container x))\<rparr>"
    using mem by (rule relocate_begin_node)
  then show ?thesis using assms(2) by (simp add: Container_find_def)
qed

lemma find_miss:
  "index_find tag k (nodes (container x)) = None \<Longrightarrow> Container_find tag k x = (None, x)"
  by (simp add: Container_find_def)

lemma emplace_fresh_state:
  assumes "\<forall>n\<in>set xs. \<not> collide ixs (snd n) v"
  shows "Container_emplace v \<lparr>container = \<lparr>indexed_by = ixs, nodes = xs, next_id = i\<rparr>, max_size = cap\<rparr>
     = (True, \<lparr>container = \<lparr>indexed_by = ixs,
                 nodes = (if length xs < cap then (i, v) # xs else butlast ((i, v) # xs)),
                 next_id = Suc i\<rparr>, max_size = cap\<rparr>)"
proof -
  have "banned_by ixs xs v = None" using assms by (simp add: banned_by_None)
  then show ?thesis by (simp add: emplace_fresh)
qed

lemma lru_scenario:
  assumes "distinct [key_of tag a, key_of tag b, key_of tag c, key_of tag d]"
    and "fresh_sequence ixs [a, b, c, d]"
  shows "Container_run [Emplace a, Emplace b, Emplace c, Find tag (key_of tag a), Find tag (key_of tag c)]
            (Container_new ixs 3)
         = \<lparr>container = \<lparr>indexed_by = ixs, nodes = [(2, c), (0, a), (1, b)], next_id = 3\<rparr>, max_size = 3\<rparr>"
    and "Container_run [Emplace a, Emplace b, Emplace c, Find tag (key_of tag a), Find tag (key_of tag c), Emplace d]
            (Container_new ixs 3)
         = \<lparr>container = \<lparr>indexed_by = ixs, nodes = [(3, d), (2, c), (0, a)], next_id = 4\<rparr>, max_size = 3\<rparr>"
proof -
  let ?st = "\<lambda>xs i. \<lparr>container = \<lparr>indexed_by = ixs, nodes = xs, next_id = i\<rparr>, max_size = 3\<rparr>"
  have s0: "Container_new ixs 3 = ?st [] 0" by (simp add: Container_new_def)
  have s1: "Container_step (Emplace a) (?st [] 0) = ?st [(0, a)] 1"
    by (simp add: emplace_fresh_state)
  have s2: "Container_step (Emplace b) (?st [(0, a)] 1) = ?st [(1, b), (0, a)] 2"
    using assms(2) by (simp add: emplace_fresh_state)
  have s3: "Container_step (Emplace c) (?st [(1, b), (0, a)] 2) = ?st [(2, c), (1, b), (0, a)] 3"
    using assms(2) by (simp add: emplace_fresh_state)
  have e4: "index_equal_range tag (key_of tag a) [(2, c), (Suc 0, b), (0, a)] = [(0, a)]"
    using assms(1) by (auto simp: index_equal_range_def has_key_def)
  have e5: "index_equal_range tag (key_of tag c) [(0, a), (2, c), (Suc 0, b)] = [(2, c)]"
    using assms(1) by (auto simp: index_equal_range_def has_key_def)
  have s4: "Container_step (Find tag (key_of tag a)) (?st [(2, c), (1, b), (0, a)] 3)
              = ?st [(0, a), (2, c), (1, b)] 3"
    by (simp add: Container_find_def index_find_def e4 relocate_begin_def)
  have s5: "Container_step (Find tag (key_of tag c)) (?st [(0, a), (2, c), (1, b)] 3)
              = ?st [(2, c), (0, a), (1, b)] 3"
    by (simp add: Container_find_def index_find_def e5 relocate_begin_def)
  have s6: "Container_step (Emplace d) (?st [(2, c), (0, a), (1, b)] 3) = ?st [(3, d), (2, c), (0, a)] 4"
    using assms(2) by (simp add: emplace_fresh_state)
  show "Container_run [Emplace a, Emplace b, Emplace c, Find tag (key_of tag a), Find tag (key_of tag c)]
            (Container_new ixs 3) = ?st [(2, c), (0, a), (1, b)] 3"
    by (simp only: Container_run.simps s0 s1 s2 s3 s4 s5)
  show "Container_run [Emplace a, Emplace b, Emplace c, Find tag (key_of tag a), Find tag (key_of tag c), Emplace d]
            (Container_new ixs 3) = ?st [(3, d), (2, c), (0, a)] 4"
    by (simp only: Container_run.simps s0 s1 s2 s3 s4 s5 s6)
qed


text \<open>
  Claim C6. In a cache of capacity 3, let \<open>a\<close>, \<open>b\<close>, \<open>c\<close>, \<open>d\<close> be values with pairwise
  different keys under the index \<open>tag\<close>, none colliding with another under a unique index.
  After \<^verbatim>\<open>emplace\<close> of \<open>a\<close>, \<open>b\<close>, \<open>c\<close> and \<^verbatim>\<open>find\<close> of \<open>a\<close> and then of \<open>c\<close> the recency
  list is \<open>c, a, b\<close>; after \<^verbatim>\<open>emplace\<close> of \<open>d\<close> it is \<open>d, c, a\<close>, and \<open>b\<close> is no longer
  stored. In general \<^verbatim>\<open>find\<close> returns \<^verbatim>\<open>end()\<close> and changes nothing when the index has no
  element of the key, and otherwise returns the element found and moves it to the head of
  the recency list.
\<close>

theorem lru_order_after_find:
  assumes "distinct [key_of tag a, key_of tag b, key_of tag c, key_of tag d]"
    and "fresh_sequence ixs [a, b, c, d]"
  shows "Container_items (Container_run
            [Emplace a, Emplace b, Emplace c, Find tag (key_of tag a), Find tag (key_of tag c)]
            (Container_new ixs 3)) = [c, a, b]
       \<and> Container_items (Container_run
            [Emplace a, Emplace b, Emplace c, Find tag (key_of tag a), Find tag (key_of tag c), Emplace d]
            (Container_new ixs 3)) = [d, c, a]
       \<and> b \<notin> set (Container_items (Container_run
            [Emplace a, Emplace b, Emplace c, Find tag (key_of tag a), Find tag (key_of tag c), Emplace d]
            (Container_new ixs 3)))
       \<and> (index_find tag k (nodes (container x)) = None \<longrightarrow> Container_find tag k x = (None, x))
       \<and> (ids_ok (container y) \<and> index_find tag k' (nodes (container y)) = Some n \<longrightarrow>
            Container_find tag k' y =
              (Some (fst n), y\<lparr>container := (container y)\<lparr>nodes := n # remove1 n (nodes (container y))\<rparr>\<rparr>))"
proof -
  have ne: "b \<noteq> a \<and> b \<noteq> c \<and> b \<noteq> d" using assms(1) by auto
  have p1: "Container_items (Container_run
            [Emplace a, Emplace b, Emplace c, Find tag (key_of tag a), Find tag (key_of tag c)]
            (Container_new ixs 3)) = [c, a, b]"
    unfolding lru_scenario(1)[OF assms] by (simp add: Container_items_def)
  have p2: "Container_items (Container_run
            [Emplace a, Emplace b, Emplace c, Find tag (key_of tag a), Find tag (key_of tag c), Emplace d]
            (Container_new ixs 3)) = [d, c, a]"
    unfolding lru_scenario(2)[OF assms] by (simp add: Container_items_def)
  have p3: "b \<notin> set (Container_items (Container_run
            [Emplace a, Emplace b, Emplace c, Find tag (key_of tag a), Find tag (key_of tag c), Emplace d]
            (Container_new ixs 3)))"
    unfolding p2 using ne by simp
  have p4: "index_find tag k (nodes (container x)) = None \<longrightarrow> Container_find tag k x = (None, x)"
    by (simp add: find_miss)
  have p5: "ids_ok (container y) \<and> index_find tag k' (nodes (container y)) = Some n \<longrightarrow>
            Container_find tag k' y =
              (Some (fst n), y\<lparr>container := (container y)\<lparr>nodes := n # remove1 n (nodes (container y))\<rparr>\<rparr>)"
    by (simp add: find_hit)
  show ?thesis using p1 p2 p3 p4 p5 by blast
qed

theorem lru_order_after_find_witness:
  "Container_items (Container_run
      [Emplace (1, ''Alice''), Emplace (2, ''Bob''), Emplace (3, ''Charlie''),
       Find IdTag (Inl 1), Find IdTag (Inl 3), Emplace (4, ''David'')]
      (Container_new [IdTag, NameTag] 3)) = [(4, ''David''), (3, ''Charlie''), (1, ''Alice'')]
   \<and> Container_find IdTag (Inl 2)
        \<lparr>container = \<lparr>indexed_by = [IdTag, NameTag],
           nodes = [(3, (4, ''David'')), (2, (3, ''Charlie'')), (0, (1, ''Alice''))], next_id = 4\<rparr>,
         max_size = 3\<rparr>
      = (None, \<lparr>container = \<lparr>indexed_by = [IdTag, NameTag],
           nodes = [(3, (4, ''David'')), (2, (3, ''Charlie'')), (0, (1, ''Alice''))], next_id = 4\<rparr>,
         max_size = 3\<rparr>)
   \<and> Container_find IdTag (Inl 1)
        \<lparr>container = \<lparr>indexed_by = [IdTag, NameTag],
           nodes = [(3, (4, ''David'')), (2, (3, ''Charlie'')), (0, (1, ''Alice''))], next_id = 4\<rparr>,
         max_size = 3\<rparr>
      = (Some 0, \<lparr>container = \<lparr>indexed_by = [IdTag, NameTag],
           nodes = [(0, (1, ''Alice'')), (3, (4, ''David'')), (2, (3, ''Charlie''))], next_id = 4\<rparr>,
         max_size = 3\<rparr>)"
proof -
  let ?x = "\<lparr>container = \<lparr>indexed_by = [IdTag, NameTag],
           nodes = [(3::nat, (4::int, ''David'')), (2, (3, ''Charlie'')), (0, (1, ''Alice''))], next_id = 4\<rparr>,
         max_size = 3\<rparr>"
  have h1: "distinct [key_of IdTag (1::int, ''Alice''), key_of IdTag (2, ''Bob''),
                      key_of IdTag (3, ''Charlie''), key_of IdTag (4, ''David'')]"
    by (simp add: IdTag_def)
  have h2: "fresh_sequence [IdTag, NameTag] [(1::int, ''Alice''), (2, ''Bob''), (3, ''Charlie''), (4, ''David'')]"
    by (simp add: collide_def IdTag_def NameTag_def)
  have h3: "index_find IdTag (Inl 2) (nodes (container ?x)) = None"
    by (simp add: index_find_def index_equal_range_def has_key_def IdTag_def)
  have h4: "ids_ok (container ?x) \<and> index_find IdTag (Inl 1) (nodes (container ?x)) = Some (0, (1, ''Alice''))"
    by (simp add: ids_ok_def index_find_def index_equal_range_def has_key_def IdTag_def)
  note t = lru_order_after_find[OF h1 h2, of "Inl 2" ?x ?x "Inl 1" "(0, (1, ''Alice''))"]
  have a: "Container_items (Container_run
      [Emplace (1, ''Alice''), Emplace (2, ''Bob''), Emplace (3, ''Charlie''),
       Find IdTag (Inl 1), Find IdTag (Inl 3), Emplace (4, ''David'')]
      (Container_new [IdTag, NameTag] 3)) = [(4, ''David''), (3, ''Charlie''), (1, ''Alice'')]"
    using t by (simp add: IdTag_def)
  have b: "Container_find IdTag (Inl 2) ?x = (None, ?x)" using t h3 by blast
  have c: "Container_find IdTag (Inl 1) ?x = (Some 0, \<lparr>container = \<lparr>indexed_by = [IdTag, NameTag],
           nodes = [(0, (1, ''Alice'')), (3, (4, ''David'')), (2, (3, ''Charlie''))], next_id = 4\<rparr>,
         max_size = 3\<rparr>)"
    using t h4 by simp
  show ?thesis using a b c by blast
qed

section \<open>Container: shrinking the capacity\<close>

lemma five_emplaced:
  assumes "fresh_sequence ixs [i1, i2, i3, i4, i5]"
  shows "Container_run [Emplace i1, Emplace i2, Emplace i3, Emplace i4, Emplace i5] (Container_new ixs 5)
         = \<lparr>container = \<lparr>indexed_by = ixs,
               nodes = [(4, i5), (3, i4), (2, i3), (1, i2), (0, i1)], next_id = 5\<rparr>, max_size = 5\<rparr>"
proof -
  let ?st = "\<lambda>xs i. \<lparr>container = \<lparr>indexed_by = ixs, nodes = xs, next_id = i\<rparr>, max_size = 5\<rparr>"
  have s0: "Container_new ixs 5 = ?st [] 0" by (simp add: Container_new_def)
  have s1: "Container_step (Emplace i1) (?st [] 0) = ?st [(0, i1)] 1"
    by (simp add: emplace_fresh_state)
  have s2: "Container_step (Emplace i2) (?st [(0, i1)] 1) = ?st [(1, i2), (0, i1)] 2"
    using assms by (simp add: emplace_fresh_state)
  have s3: "Container_step (Emplace i3) (?st [(1, i2), (0, i1)] 2) = ?st [(2, i3), (1, i2), (0, i1)] 3"
    using assms by (simp add: emplace_fresh_state)
  have s4: "Container_step (Emplace i4) (?st [(2, i3), (1, i2), (0, i1)] 3)
              = ?st [(3, i4), (2, i3), (1, i2), (0, i1)] 4"
    using assms by (simp add: emplace_fresh_state)
  have s5: "Container_step (Emplace i5) (?st [(3, i4), (2, i3), (1, i2), (0, i1)] 4)
              = ?st [(4, i5), (3, i4), (2, i3), (1, i2), (0, i1)] 5"
    using assms by (simp add: emplace_fresh_state)
  show ?thesis by (simp only: Container_run.simps s0 s1 s2 s3 s4 s5)
qed

text \<open>
  Claim C7. Let \<open>i1\<close>, ..., \<open>i5\<close> be values with pairwise different keys under the index
  \<open>tag\<close>, none colliding with another under a unique index, emplaced in this order into a
  new cache of capacity 5. Then \<^verbatim>\<open>set_capacity(2)\<close> leaves exactly the two most recently
  used, \<open>i5\<close> and \<open>i4\<close>, in the cache; they are found by \<^verbatim>\<open>find\<close>, the three least
  recently used \<open>i3\<close>, \<open>i2\<close>, \<open>i1\<close> are not, and \<^verbatim>\<open>capacity()\<close> is 2.
\<close>

theorem set_capacity_evicts_least_recent:
  assumes "distinct [key_of tag i1, key_of tag i2, key_of tag i3, key_of tag i4, key_of tag i5]"
    and "fresh_sequence ixs [i1, i2, i3, i4, i5]"
    and "c5 = Container_run [Emplace i1, Emplace i2, Emplace i3, Emplace i4, Emplace i5] (Container_new ixs 5)"
  shows "Container_items c5 = [i5, i4, i3, i2, i1]
       \<and> Container_items (Container_set_capacity 2 c5) = [i5, i4]
       \<and> Container_size (Container_set_capacity 2 c5) = 2
       \<and> Container_capacity (Container_set_capacity 2 c5) = 2
       \<and> fst (Container_find tag (key_of tag i5) (Container_set_capacity 2 c5)) = Some 4
       \<and> fst (Container_find tag (key_of tag i4) (Container_set_capacity 2 c5)) = Some 3
       \<and> fst (Container_find tag (key_of tag i3) (Container_set_capacity 2 c5)) = None
       \<and> fst (Container_find tag (key_of tag i2) (Container_set_capacity 2 c5)) = None
       \<and> fst (Container_find tag (key_of tag i1) (Container_set_capacity 2 c5)) = None"
proof -
  have c5: "c5 = \<lparr>container = \<lparr>indexed_by = ixs,
               nodes = [(4, i5), (3, i4), (2, i3), (1, i2), (0, i1)], next_id = 5\<rparr>, max_size = 5\<rparr>"
    unfolding assms(3) using assms(2) by (rule five_emplaced)
  have c2: "Container_set_capacity 2 c5
      = \<lparr>container = \<lparr>indexed_by = ixs, nodes = [(4, i5), (3, i4)], next_id = 5\<rparr>, max_size = 2\<rparr>"
    by (simp add: c5 set_capacity_take)
  have p1: "Container_items c5 = [i5, i4, i3, i2, i1]" by (simp add: c5 Container_items_def)
  have p2: "Container_items (Container_set_capacity 2 c5) = [i5, i4]"
    by (simp add: c2 Container_items_def)
  have p3: "Container_size (Container_set_capacity 2 c5) = 2"
    by (simp add: c2 Container_size_def mic_size_def)
  have p4: "Container_capacity (Container_set_capacity 2 c5) = 2"
    by (simp add: c2 Container_capacity_def)
  have p5: "fst (Container_find tag (key_of tag i5) (Container_set_capacity 2 c5)) = Some 4"
    unfolding c2 using assms(1)
    by (auto simp: Container_find_def index_find_def index_equal_range_def has_key_def)
  have p6: "fst (Container_find tag (key_of tag i4) (Container_set_capacity 2 c5)) = Some 3"
    unfolding c2 using assms(1)
    by (auto simp: Container_find_def index_find_def index_equal_range_def has_key_def)
  have p7: "fst (Container_find tag (key_of tag i3) (Container_set_capacity 2 c5)) = None"
    unfolding c2 using assms(1)
    by (auto simp: Container_find_def index_find_def index_equal_range_def has_key_def)
  have p8: "fst (Container_find tag (key_of tag i2) (Container_set_capacity 2 c5)) = None"
    unfolding c2 using assms(1)
    by (auto simp: Container_find_def index_find_def index_equal_range_def has_key_def)
  have p9: "fst (Container_find tag (key_of tag i1) (Container_set_capacity 2 c5)) = None"
    unfolding c2 using assms(1)
    by (auto simp: Container_find_def index_find_def index_equal_range_def has_key_def)
  show ?thesis using p1 p2 p3 p4 p5 p6 p7 p8 p9 by blast
qed

theorem set_capacity_evicts_least_recent_witness:
  "Container_items (Container_set_capacity 2
     (Container_run [Emplace (1, ''A''), Emplace (2, ''B''), Emplace (3, ''C''), Emplace (4, ''D''), Emplace (5, ''E'')]
        (Container_new [IdTag, NameTag] 5))) = [(5, ''E''), (4, ''D'')]
   \<and> Container_capacity (Container_set_capacity 2
     (Container_run [Emplace (1, ''A''), Emplace (2, ''B''), Emplace (3, ''C''), Emplace (4, ''D''), Emplace (5, ''E'')]
        (Container_new [IdTag, NameTag] 5))) = 2
   \<and> fst (Container_find IdTag (Inl 4) (Container_set_capacity 2
     (Container_run [Emplace (1, ''A''), Emplace (2, ''B''), Emplace (3, ''C''), Emplace (4, ''D''), Emplace (5, ''E'')]
        (Container_new [IdTag, NameTag] 5)))) = Some 3
   \<and> fst (Container_find IdTag (Inl 3) (Container_set_capacity 2
     (Container_run [Emplace (1, ''A''), Emplace (2, ''B''), Emplace (3, ''C''), Emplace (4, ''D''), Emplace (5, ''E'')]
        (Container_new [IdTag, NameTag] 5)))) = None"
proof -
  have h1: "distinct [key_of IdTag (1::int, ''A''), key_of IdTag (2, ''B''), key_of IdTag (3, ''C''),
                      key_of IdTag (4, ''D''), key_of IdTag (5, ''E'')]"
    by (simp add: IdTag_def)
  have h2: "fresh_sequence [IdTag, NameTag] [(1::int, ''A''), (2, ''B''), (3, ''C''), (4, ''D''), (5, ''E'')]"
    by (simp add: collide_def IdTag_def NameTag_def)
  note t = set_capacity_evicts_least_recent[OF h1 h2 refl]
  have k: "key_of IdTag (4::int, ''D'') = Inl 4" "key_of IdTag (3::int, ''C'') = Inl 3"
    by (simp_all add: IdTag_def)
  show ?thesis using t unfolding k by blast
qed

section \<open>ExpirableContainer: find\<close>









lemma wrap64_representable: "representable x \<Longrightarrow> wrap64 x = x"
  by (simp add: wrap64_def representable_def)

lemma wrap64_add_wrap64: "wrap64 (a + wrap64 b) = wrap64 (a + b)"
proof -
  have "(a + ((b + 2 ^ 63) mod 2 ^ 64 - 2 ^ 63) + 2 ^ 63) mod 2 ^ 64
          = (a + (b + 2 ^ 63) mod 2 ^ 64) mod (2 ^ 64 :: int)"
    by (simp add: algebra_simps)
  also have "\<dots> = (a + (b + 2 ^ 63)) mod 2 ^ 64" by (rule mod_add_right_eq)
  finally show ?thesis by (simp add: wrap64_def add.assoc)
qed

lemma time_point_plus_exact:
  "representable (tp + d * 1000000) \<Longrightarrow> time_point_plus tp d = tp + d * 1000000"
  by (simp add: time_point_plus_def wrap64_add_wrap64 wrap64_representable)

lemma expired_past_ttl: "deadline_fits t n \<Longrightarrow> expired now t n = past_ttl now t n"
  by (auto simp: deadline_fits_def expired_def past_ttl_def time_point_plus_exact)





lemma one_user_cache_built:
  "ExpirableContainer_new False [IdTag, NameTag] 100 50 = Inr e \<Longrightarrow>
   snd (Expirable_emplace 0 (1, ''Alice'') e) = one_user_cache 50"
  by (auto simp: ExpirableContainer_new_def c_assert_def Container_new_def Expirable_emplace_def
      emplace_front_def get_sequenced_def put_sequenced_def TimestampedValue_new_def mic_size_def
      Container_capacity_def one_user_cache_def)



section \<open>ExpirableContainer: find\_no\_update\<close>

text \<open>
  With a TTL that is not negative and clock values of \<^verbatim>\<open>int64_t\<close>, the sum of a node that is
  older than the TTL is a value of \<^verbatim>\<open>int64_t\<close>: there the test of the code says expired.
\<close>

lemma past_ttl_fits:
  assumes "0 \<le> t" and "representable (last_accessed (snd n))" and "representable now"
    and "past_ttl now t n"
  shows "deadline_fits t n"
  using assms by (simp add: deadline_fits_def representable_def past_ttl_def)

text \<open>
  Claim C8. \<^verbatim>\<open>find_no_update<Tag>(key)\<close> returns what the lookup in the index finds,
  whatever the time and the TTL, and leaves the wrapper as it was: nothing is erased, no
  \<^verbatim>\<open>last_accessed\<close> is assigned and the recency list keeps its order. It returns an
  element that is already expired; and a \<^verbatim>\<open>find\<close> after it, at a time when the element is
  expired (by the test of the code; or older than the TTL, with a sum \<open>last_accessed + ttl\<close>
  that is a value of the clock's 64-bit count), reports the element absent.
\<close>

theorem find_no_update_changes_nothing:
  "Expirable_find_no_update tag k e
     = (map_option fst (index_find (wrapped tag) k (nodes (get_sequenced e))), e)
   \<and> Container_find_no_update tag' k' c = (map_option fst (index_find tag' k' (nodes (container c))), c)
   \<and> (index_find (wrapped tag) k (nodes (get_sequenced e)) = Some n
        \<and> expired now (ttl e) n \<longrightarrow>
        fst (Expirable_find_no_update tag k e) = Some (fst n)
        \<and> fst (Expirable_find now tag k (snd (Expirable_find_no_update tag k e))) = None)
   \<and> (index_find (wrapped tag) k (nodes (get_sequenced e)) = Some n
        \<and> deadline_fits (ttl e) n \<and> past_ttl now (ttl e) n \<longrightarrow>
        fst (Expirable_find_no_update tag k e) = Some (fst n)
        \<and> fst (Expirable_find now tag k (snd (Expirable_find_no_update tag k e))) = None)"
proof -
  have a: "Expirable_find_no_update tag k e
     = (map_option fst (index_find (wrapped tag) k (nodes (get_sequenced e))), e)"
    by (simp add: Expirable_find_no_update_def Container_find_no_update_def get_sequenced_def)
  have b: "Container_find_no_update tag' k' c
     = (map_option fst (index_find tag' k' (nodes (container c))), c)"
    by (simp add: Container_find_no_update_def)
  have c: "fst (Expirable_find_no_update tag k e) = Some (fst n)
        \<and> fst (Expirable_find now tag k (snd (Expirable_find_no_update tag k e))) = None"
    if "index_find (wrapped tag) k (nodes (get_sequenced e)) = Some n" "expired now (ttl e) n"
    using that by (simp add: a Expirable_find_def expired_def)
  have d: "fst (Expirable_find_no_update tag k e) = Some (fst n)
        \<and> fst (Expirable_find now tag k (snd (Expirable_find_no_update tag k e))) = None"
    if "index_find (wrapped tag) k (nodes (get_sequenced e)) = Some n"
       "deadline_fits (ttl e) n" "past_ttl now (ttl e) n"
    using c that by (simp add: expired_past_ttl)
  show ?thesis using a b c d by blast
qed

text \<open>The scenario of P6: TTL 80 ms, \<^verbatim>\<open>find_no_update\<close>, then \<^verbatim>\<open>find\<close> 100 ms after the insertion.\<close>

theorem find_no_update_changes_nothing_witness:
  "Expirable_find_no_update IdTag (Inl 1) (one_user_cache 80) = (Some 0, one_user_cache 80)
   \<and> fst (Expirable_find 100000000 IdTag (Inl 1)
            (snd (Expirable_find_no_update IdTag (Inl 1) (one_user_cache 80)))) = None"
proof -
  let ?n = "(0::nat, \<lparr>tv_value = (1::int, ''Alice''), last_accessed = 0\<rparr>)"
  have h: "index_find (wrapped IdTag) (Inl 1) (nodes (get_sequenced (one_user_cache 80))) = Some ?n
        \<and> deadline_fits (ttl (one_user_cache 80)) ?n
        \<and> past_ttl 100000000 (ttl (one_user_cache 80)) ?n"
    by (simp add: one_user_cache_def get_sequenced_def index_find_def index_equal_range_def
        has_key_def wrapped_def IdTag_def deadline_fits_def representable_def past_ttl_def)
  have x: "expired 100000000 (ttl (one_user_cache 80)) ?n"
    by (simp add: one_user_cache_def expired_def time_point_plus_def wrap64_def)
  note t = find_no_update_changes_nothing[of IdTag "Inl 1" "one_user_cache 80"
      NameTag "Inr ''Bob''" "Container_new [] 1" ?n 100000000]
  have "fst (Expirable_find 100000000 IdTag (Inl 1)
          (snd (Expirable_find_no_update IdTag (Inl 1) (one_user_cache 80)))) = None"
    using t h by blast
  moreover have "fst (Expirable_find_no_update IdTag (Inl 1) (one_user_cache 80)) = Some 0"
    using t h x by simp
  moreover have "snd (Expirable_find_no_update IdTag (Inl 1) (one_user_cache 80)) = one_user_cache 80"
    using t[THEN conjunct1] by simp
  ultimately show ?thesis by (simp add: prod_eq_iff)
qed

section \<open>ExpirableContainer: the TTL must be positive\<close>

text \<open>
  Claim C9, as the code has it. The constructor and \<^verbatim>\<open>set_ttl\<close> check the TTL with
  \<^verbatim>\<open>assert\<close>. Compiled with assertions (\<^verbatim>\<open>NDEBUG\<close> not defined), a call with a TTL
  \<open>\<le> 0\<close> fails the assertion, for every capacity and every state, and a call with a
  positive TTL succeeds; compiled with \<^verbatim>\<open>NDEBUG\<close>, the check is gone and every TTL is
  stored.
\<close>

theorem nonpositive_ttl_asserted:
  "(t \<le> 0 \<longrightarrow> ExpirableContainer_new False ixs n t = Inl Assertion_failed
              \<and> set_ttl False t e = Inl Assertion_failed)
   \<and> (0 < t' \<longrightarrow> ExpirableContainer_new False ixs n t'
                   = Inr \<lparr>exp_container = Container_new (map wrapped ixs) n, ttl = t'\<rparr>
              \<and> set_ttl False t' e = Inr (e\<lparr>ttl := t'\<rparr>))
   \<and> ExpirableContainer_new True ixs n t = Inr \<lparr>exp_container = Container_new (map wrapped ixs) n, ttl = t\<rparr>
   \<and> set_ttl True t e = Inr (e\<lparr>ttl := t\<rparr>)"
  by (simp add: ExpirableContainer_new_def set_ttl_def c_assert_def)

theorem nonpositive_ttl_asserted_witness:
  "ExpirableContainer_new False [IdTag] 100 0 = Inl Assertion_failed
   \<and> set_ttl False (- 5) (one_user_cache 50) = Inl Assertion_failed
   \<and> set_ttl False 30 (one_user_cache 50) = Inr (one_user_cache 30)"
  using nonpositive_ttl_asserted[of 0 "[IdTag]" 100 "one_user_cache 50" 30]
        nonpositive_ttl_asserted[of "- 5" "[IdTag]" 100 "one_user_cache 50" 30]
  by (simp add: one_user_cache_def)

text \<open>
  Claim C9 as stated fails: compiled with \<^verbatim>\<open>NDEBUG\<close>, the constructor takes the TTL 0 and
  \<^verbatim>\<open>set_ttl\<close> takes the TTL -5; both calls succeed and store the value.
\<close>

theorem nonpositive_ttl_counterexample:
  "ExpirableContainer_new True [IdTag] 100 0
     = Inr \<lparr>exp_container = Container_new [wrapped IdTag] 100, ttl = 0\<rparr>
   \<and> set_ttl True (- 5) (one_user_cache 50) = Inr (one_user_cache (- 5))"
  by (simp add: ExpirableContainer_new_def set_ttl_def c_assert_def one_user_cache_def)

section \<open>ExpirableContainer: equal\_range\<close>


lemma has_key_touched [simp]: "has_key (wrapped tag) k (touched now n) = has_key (wrapped tag) k n"
  by (simp add: has_key_def wrapped_def touched_def)

lemma fst_touched [simp]: "fst (touched now n) = fst n"
  by (simp add: touched_def)












lemma filter_key_touched:
  "filter (has_key (wrapped tag) k) (map (touched now) xs)
     = map (touched now) (filter (has_key (wrapped tag) k) xs)"
  by (induction xs) simp_all





lemma johns_cache_built:
  "ExpirableContainer_new False [IdTag, NameTag] 10 t = Inr e \<Longrightarrow>
   snd (Expirable_emplace t2 (3, ''Alice'')
     (snd (Expirable_emplace t2 (2, ''John'') (snd (Expirable_emplace t1 (1, ''John'') e)))))
   = johns_cache t1 t2 t"
  by (auto simp: ExpirableContainer_new_def c_assert_def Container_new_def Expirable_emplace_def
      emplace_front_def get_sequenced_def put_sequenced_def TimestampedValue_new_def mic_size_def
      Container_capacity_def johns_cache_def wrapped_def IdTag_def NameTag_def has_key_def
      split: if_splits)






section \<open>ExpirableContainer: cleanup\_expired and the life of last\_accessed\<close>






lemma ids_ok_alt:
  "ids_ok m = (distinct (map fst (nodes m)) \<and> (\<forall>i\<in>set (map fst (nodes m)). i < next_id m))"
  by (auto simp: ids_ok_def list_all_iff)

lemma ids_ok_sub:
  assumes "ids_ok m" and "distinct ys" and "set ys \<subseteq> set (nodes m)"
  shows "ids_ok (m\<lparr>nodes := ys\<rparr>)"
proof -
  have "inj_on fst (set (nodes m))" using assms(1) by (simp add: ids_ok_def distinct_map)
  then have "inj_on fst (set ys)" using assms(3) by (rule inj_on_subset)
  then have "distinct (map fst ys)" using assms(2) by (simp add: distinct_map)
  moreover have "list_all (\<lambda>n. fst n < next_id m) ys"
    using assms(1,3) by (auto simp: ids_ok_def list_all_iff)
  ultimately show ?thesis by (simp add: ids_ok_def)
qed

lemma ids_ok_distinct: "ids_ok m \<Longrightarrow> distinct (nodes m)"
  by (simp add: ids_ok_def distinct_map)


lemma ids_ok_pop_back: "ids_ok m \<Longrightarrow> ids_ok (pop_back m)"
  unfolding pop_back_def
  by (rule ids_ok_sub) (auto dest: ids_ok_distinct in_set_butlastD simp: distinct_butlast)


lemma ids_ok_relocate_begin: assumes "ids_ok m" shows "ids_ok (relocate_begin i m)"
proof (cases "List.find (\<lambda>n. fst n = i) (nodes m)")
  case None
  then show ?thesis using assms by (simp add: relocate_begin_def)
next
  case (Some n)
  then have mem: "n \<in> set (nodes m)" by (simp add: find_id_mem)
  have d: "distinct (map fst (nodes m))" using assms by (simp add: ids_ok_def)
  have r: "remove1 n (nodes m) = filter (\<lambda>x. fst x \<noteq> fst n) (nodes m)"
    using d mem by (rule remove1_by_id)
  have "distinct (map fst (n # remove1 n (nodes m)))"
    unfolding r using distinct_map_filter[OF d] by auto
  moreover have "\<forall>j\<in>set (map fst (n # remove1 n (nodes m))). j < next_id m"
    using assms mem unfolding ids_ok_alt r by auto
  ultimately show ?thesis using Some by (simp add: relocate_begin_def ids_ok_alt)
qed

lemma ids_ok_emplace_front: "ids_ok m \<Longrightarrow> ids_ok (snd (emplace_front v m))"
  by (cases "banned_by (indexed_by m) (nodes m) v")
     (auto simp: emplace_front_def ids_ok_alt less_Suc_eq)



lemma ids_ok_set_capacity:
  "ids_ok (container c) \<Longrightarrow> ids_ok (container (Container_set_capacity n c))"
  unfolding set_capacity_take
  by (simp, rule ids_ok_sub) (auto dest: ids_ok_distinct in_set_takeD)




















section \<open>Node identities in reachable containers\<close>

text \<open>
  The theorems above that ask for pairwise different node identities (\<open>ids_ok\<close>) speak of
  every container a program can build: a new container has them, and every operation
  keeps them (for the operations of ExpirableContainer this is part of the theorem on the
  life of \<^verbatim>\<open>last_accessed\<close>).
\<close>

lemma emplace_ids_ok:
  assumes "ids_ok (container c)" shows "ids_ok (container (snd (Container_emplace v c)))"
proof -
  obtain r m where ef: "emplace_front v (container c) = (r, m)" by (cases "emplace_front v (container c)")
  have m: "ids_ok m" using ids_ok_emplace_front[OF assms, of v] by (simp add: ef)
  show ?thesis
    using m ids_ok_relocate_begin[OF m] ids_ok_pop_back[OF m]
    by (simp add: Container_emplace_def ef)
qed

lemma find_ids_ok:
  "ids_ok (container c) \<Longrightarrow> ids_ok (container (snd (Container_find tag k c)))"
  by (simp add: Container_find_def ids_ok_relocate_begin split: option.splits)

lemma erase_ids_ok:
  assumes "ids_ok (container c)" shows "ids_ok (container (snd (Container_erase tag k c)))"
proof -
  have "ids_ok ((container c)\<lparr>nodes := filter (\<lambda>n. \<not> has_key tag k n) (nodes (container c))\<rparr>)"
    using assms by (rule ids_ok_sub) (use ids_ok_distinct[OF assms] in auto)
  then show ?thesis by (simp add: Container_erase_def index_erase_key_def)
qed

lemma clear_ids_ok:
  assumes "ids_ok (container c)" shows "ids_ok (container (Container_clear c))"
proof -
  have "ids_ok ((container c)\<lparr>nodes := []\<rparr>)" using assms by (rule ids_ok_sub) simp_all
  then show ?thesis by (simp add: Container_clear_def mic_clear_def)
qed

lemma step_ids_ok: "ids_ok (container c) \<Longrightarrow> ids_ok (container (Container_step op c))"
  by (cases op)
     (simp_all add: emplace_ids_ok Container_insert_def find_ids_ok Container_contains_def
        erase_ids_ok ids_ok_set_capacity clear_ids_ok split: prod.splits,
      metis find_ids_ok snd_conv)

lemma run_ids_ok: "ids_ok (container c) \<Longrightarrow> ids_ok (container (Container_run ops c))"
  by (induction ops arbitrary: c) (simp_all add: step_ids_ok)

lemma reachable_ids_ok: "ids_ok (container (Container_run ops (Container_new ixs n)))"
  by (rule run_ids_ok) (simp add: Container_new_def ids_ok_def)

lemma new_expirable_ids_ok:
  "ExpirableContainer_new ndebug ixs n t = Inr e \<Longrightarrow> ids_ok (get_sequenced e)"
  by (auto simp: ExpirableContainer_new_def Container_new_def get_sequenced_def ids_ok_def
      split: sum.splits)

end
